theory Spec2Isabelle
  imports Complex_Main
begin

section \<open>Data model\<close>

text \<open>
  A Python \<open>str\<close> is a sequence of Unicode code points, so it is modelled as a list of
  natural numbers (one per code point), not as a list of 8-bit characters: the regular
  expression, \<open>split\<close> and \<open>parse_qs\<close> all count code points. \<open>str\<close> turns an ASCII
  literal into that representation.
\<close>

type_synonym pystr = "nat list"

definition str :: "string \<Rightarrow> pystr" where
  "str s = map of_char s"

text \<open>The dataclass \<open>Accession\<close>: one required field and three \<open>Optional[str]\<close> fields.\<close>

record Accession =
  accession :: pystr
  from_position :: "pystr option"
  to_position :: "pystr option"
  strand :: "pystr option"

text \<open>
  Exceptions that can leave the modelled functions: \<open>ValueError\<close> (tuple unpacking of a
  list of the wrong length, \<open>time.sleep\<close> of a negative delay), \<open>IndexError\<close> (index 0 of
  an empty list), and any exception raised by the session, kept with its message.
\<close>

datatype error = ValueError | IndexError | Raised pystr

section \<open>Reference Extractor: \<open>extract_ncbi_accessions\<close>\<close>

text \<open>
  The extractor calls three library functions: \<open>re.findall\<close>, \<open>str.split\<close> and
  \<open>urllib.parse.parse_qs\<close>. They are modelled as CPython 3.11 computes them for \<open>str\<close>
  arguments and the default options the source uses.
\<close>

subsection \<open>Characters with a role\<close>

definition dquote :: nat where "dquote = of_char (CHR 0x22)"
definition newline :: nat where "newline = of_char (CHR 0x0A)"
definition qmark :: nat where "qmark = of_char (CHR ''?'')"
definition amp :: nat where "amp = of_char (CHR ''&'')"
definition eq_sign :: nat where "eq_sign = of_char (CHR ''='')"
definition percent :: nat where "percent = of_char (CHR ''%'')"
definition plus_sign :: nat where "plus_sign = of_char (CHR ''+'')"
definition space :: nat where "space = of_char (CHR '' '')"

subsection \<open>The regular expression\<close>

text \<open>
  The pattern is \<open>http://www.ncbi.nlm.nih.gov/nuccore/([^"]+)\<close>. Its prefix is a sequence
  of atoms, each matching one code point: a dot is not escaped in the source, so it
  matches any code point except the newline; every other character of the prefix stands
  for itself. The group is the longest non-empty run of code points other than the
  double quote. \<open>match_here\<close> matches the pattern at the start of a text and returns the
  group and the text after the match.
\<close>

datatype atom = Lit nat | Dot

fun atom_matches :: "atom \<Rightarrow> nat \<Rightarrow> bool" where
  "atom_matches (Lit a) c = (c = a)"
| "atom_matches Dot c = (c \<noteq> newline)"

definition compile_literal :: "pystr \<Rightarrow> atom list" where
  "compile_literal p = map (\<lambda>c. if c = of_char (CHR ''.'') then Dot else Lit c) p"

definition accession_pattern :: "atom list" where
  "accession_pattern = compile_literal (str ''http://www.ncbi.nlm.nih.gov/nuccore/'')"

fun match_atoms :: "atom list \<Rightarrow> pystr \<Rightarrow> pystr option" where
  "match_atoms [] s = Some s"
| "match_atoms (a # as) [] = None"
| "match_atoms (a # as) (c # cs) = (if atom_matches a c then match_atoms as cs else None)"

definition match_here :: "pystr \<Rightarrow> (pystr \<times> pystr) option" where
  "match_here s =
     (case match_atoms accession_pattern s of
        None \<Rightarrow> None
      | Some r \<Rightarrow>
          (let g = takeWhile (\<lambda>c. c \<noteq> dquote) r in
           if g = [] then None else Some (g, dropWhile (\<lambda>c. c \<noteq> dquote) r)))"

text \<open>
  \<open>re.findall\<close> with one group: the groups of the leftmost non-overlapping matches. The
  scan resumes where a match ended, or one code point further where none started.
\<close>

function findall :: "pystr \<Rightarrow> pystr list" where
  "findall [] = []"
| "findall (c # cs) =
     (case match_here (c # cs) of
        Some (g, rest) \<Rightarrow> g # findall rest
      | None \<Rightarrow> findall cs)"
  by pat_completeness auto

termination findall
proof (relation "measure length", goal_cases)
  case 1
  show ?case by simp
next
  case (2 c cs)
  show ?case by simp
next
  case (3 c cs p g rest)
  have shorter: "length r \<le> length s" if "match_atoms q s = Some r" for q s r
    using that by (induction q s rule: match_atoms.induct) (auto split: if_splits)
  from 3 obtain r where r: "match_atoms accession_pattern (c # cs) = Some r"
    and g: "takeWhile (\<lambda>x. x \<noteq> dquote) r \<noteq> []"
    and rest: "rest = dropWhile (\<lambda>x. x \<noteq> dquote) r"
    by (auto simp add: match_here_def Let_def split: option.splits if_splits)
  have "length (takeWhile (\<lambda>x. x \<noteq> dquote) r) + length rest = length r"
    unfolding rest by (metis length_append takeWhile_dropWhile_id)
  moreover have "0 < length (takeWhile (\<lambda>x. x \<noteq> dquote) r)" using g by simp
  ultimately have "length rest < length (c # cs)" using shorter [OF r] by linarith
  then show ?case by simp
qed

subsection \<open>\<open>str.split\<close> and \<open>str.partition\<close>\<close>

text \<open>
  \<open>split_all sep s\<close> is \<open>s.split(sep)\<close>, \<open>split1 sep s\<close> is \<open>s.split(sep, 1)\<close> and
  \<open>partition_str sep s\<close> is \<open>s.partition(sep)\<close>, for a separator of one code point.
\<close>

fun split_all :: "nat \<Rightarrow> pystr \<Rightarrow> pystr list" where
  "split_all sep [] = [[]]"
| "split_all sep (c # cs) =
     (if c = sep then [] # split_all sep cs
      else (case split_all sep cs of
              p # ps \<Rightarrow> (c # p) # ps
            | [] \<Rightarrow> [[c]]))"

definition split1 :: "nat \<Rightarrow> pystr \<Rightarrow> pystr list" where
  "split1 sep s =
     (if sep \<in> set s
      then [takeWhile (\<lambda>c. c \<noteq> sep) s, drop 1 (dropWhile (\<lambda>c. c \<noteq> sep) s)]
      else [s])"

definition partition_str :: "nat \<Rightarrow> pystr \<Rightarrow> pystr \<times> pystr \<times> pystr" where
  "partition_str sep s =
     (if sep \<in> set s
      then (takeWhile (\<lambda>c. c \<noteq> sep) s, [sep], drop 1 (dropWhile (\<lambda>c. c \<noteq> sep) s))
      else (s, [], []))"

subsection \<open>UTF-8 decoding with \<open>errors='replace'\<close>\<close>

text \<open>
  \<open>utf8_step b bs\<close> decodes the sequence that starts with byte \<open>b\<close> and returns its code
  point and the number of bytes of \<open>bs\<close> it used. An invalid start byte, an invalid
  continuation byte and a sequence cut off by the end of the input each become one
  U+FFFD that replaces the bytes read so far; decoding resumes at the offending byte.
\<close>

definition replacement_char :: nat where "replacement_char = 0xFFFD"

definition is_continuation :: "nat \<Rightarrow> bool" where
  "is_continuation b = (0x80 \<le> b \<and> b < 0xC0)"

fun utf8_step :: "nat \<Rightarrow> nat list \<Rightarrow> nat \<times> nat" where
  "utf8_step b bs =
     (if b < 0x80 then (b, 0)
      else if b < 0xC2 then (replacement_char, 0)
      else if b < 0xE0 then
        (case bs of
           [] \<Rightarrow> (replacement_char, 0)
         | b1 # bs1 \<Rightarrow>
             if is_continuation b1 then ((b - 0xC0) * 0x40 + (b1 - 0x80), 1)
             else (replacement_char, 0))
      else if b < 0xF0 then
        (case bs of
           [] \<Rightarrow> (replacement_char, 0)
         | b1 # bs1 \<Rightarrow>
             if \<not> is_continuation b1 \<or> (if b1 < 0xA0 then b = 0xE0 else b = 0xED)
             then (replacement_char, 0)
             else (case bs1 of
                     [] \<Rightarrow> (replacement_char, 1)
                   | b2 # bs2 \<Rightarrow>
                       if is_continuation b2
                       then ((b - 0xE0) * 0x1000 + (b1 - 0x80) * 0x40 + (b2 - 0x80), 2)
                       else (replacement_char, 1)))
      else if b < 0xF5 then
        (case bs of
           [] \<Rightarrow> (replacement_char, 0)
         | b1 # bs1 \<Rightarrow>
             if \<not> is_continuation b1 \<or> (if b1 < 0x90 then b = 0xF0 else b = 0xF4)
             then (replacement_char, 0)
             else (case bs1 of
                     [] \<Rightarrow> (replacement_char, 1)
                   | b2 # bs2 \<Rightarrow>
                       if \<not> is_continuation b2 then (replacement_char, 1)
                       else (case bs2 of
                               [] \<Rightarrow> (replacement_char, 2)
                             | b3 # bs3 \<Rightarrow>
                                 if is_continuation b3
                                 then ((b - 0xF0) * 0x40000 + (b1 - 0x80) * 0x1000
                                         + (b2 - 0x80) * 0x40 + (b3 - 0x80), 3)
                                 else (replacement_char, 2))))
      else (replacement_char, 0))"

fun utf8_decode :: "nat list \<Rightarrow> pystr" where
  "utf8_decode [] = []"
| "utf8_decode (b # bs) =
     (case utf8_step b bs of (cp, extra) \<Rightarrow> cp # utf8_decode (drop extra bs))"

subsection \<open>\<open>urllib.parse.unquote_plus\<close>\<close>

text \<open>
  \<open>unquote_to_bytes\<close> splits at every percent sign and turns the two hexadecimal digits
  after it into one byte; a percent sign not followed by two such digits stays.
  \<open>unquote\<close> returns a text without a percent sign as it is; otherwise it decodes every
  maximal run of ASCII code points through \<open>unquote_to_bytes\<close> and UTF-8 and keeps the
  code points outside ASCII. \<open>unquote_plus\<close> first reads every plus sign as a space.
\<close>

fun hexval :: "nat \<Rightarrow> nat option" where
  "hexval c =
     (if 48 \<le> c \<and> c \<le> 57 then Some (c - 48)
      else if 65 \<le> c \<and> c \<le> 70 then Some (c - 55)
      else if 97 \<le> c \<and> c \<le> 102 then Some (c - 87)
      else None)"

fun unquote_item :: "nat list \<Rightarrow> nat list" where
  "unquote_item (h1 # h2 # rest) =
     (case hexval h1 of
        Some a \<Rightarrow>
          (case hexval h2 of
             Some b \<Rightarrow> (16 * a + b) # rest
           | None \<Rightarrow> percent # h1 # h2 # rest)
      | None \<Rightarrow> percent # h1 # h2 # rest)"
| "unquote_item item = percent # item"

definition unquote_to_bytes :: "pystr \<Rightarrow> nat list" where
  "unquote_to_bytes s =
     (case split_all percent s of
        [] \<Rightarrow> []
      | b0 # bits \<Rightarrow> b0 @ concat (map unquote_item bits))"

definition is_ascii :: "nat \<Rightarrow> bool" where
  "is_ascii c = (c < 0x80)"

function unquote_parts :: "pystr \<Rightarrow> pystr" where
  "unquote_parts [] = []"
| "unquote_parts (c # cs) =
     (if is_ascii c
      then utf8_decode (unquote_to_bytes (takeWhile is_ascii (c # cs)))
             @ unquote_parts (dropWhile is_ascii (c # cs))
      else c # unquote_parts cs)"
  by pat_completeness auto
termination
  by (relation "measure length") (auto simp add: less_Suc_eq_le length_dropWhile_le)

definition unquote :: "pystr \<Rightarrow> pystr" where
  "unquote s = (if percent \<in> set s then unquote_parts s else s)"

definition unquote_plus :: "pystr \<Rightarrow> pystr" where
  "unquote_plus s = unquote (map (\<lambda>c. if c = plus_sign then space else c) s)"

subsection \<open>\<open>urllib.parse.parse_qsl\<close> and \<open>parse_qs\<close>\<close>

text \<open>
  With the defaults \<open>keep_blank_values=False\<close>, \<open>strict_parsing=False\<close> and
  \<open>separator='&'\<close>: an empty field and a field whose value is empty are skipped, and both
  the name and the value of a kept field are unquoted. \<open>parse_qs\<close> collects the values of
  each name, in order, in a dictionary.
\<close>

fun parse_qsl_fields :: "pystr list \<Rightarrow> (pystr \<times> pystr) list" where
  "parse_qsl_fields [] = []"
| "parse_qsl_fields (name_value # name_values) =
     (if name_value \<noteq> [] then
        (case partition_str eq_sign name_value of
           (name, has_eq, val) \<Rightarrow>
             if val \<noteq> []
             then (unquote_plus name, unquote_plus val) # parse_qsl_fields name_values
             else parse_qsl_fields name_values)
      else parse_qsl_fields name_values)"

definition parse_qsl :: "pystr \<Rightarrow> (pystr \<times> pystr) list" where
  "parse_qsl qs = (if qs = [] then [] else parse_qsl_fields (split_all amp qs))"

fun parse_qs_collect ::
  "(pystr \<times> pystr) list \<Rightarrow> (pystr \<rightharpoonup> pystr list) \<Rightarrow> (pystr \<rightharpoonup> pystr list)" where
  "parse_qs_collect [] parsed_result = parsed_result"
| "parse_qs_collect ((name, val) # pairs) parsed_result =
     parse_qs_collect pairs
       (case parsed_result name of
          Some vals \<Rightarrow> parsed_result(name \<mapsto> vals @ [val])
        | None \<Rightarrow> parsed_result(name \<mapsto> [val]))"

definition parse_qs :: "pystr \<Rightarrow> (pystr \<rightharpoonup> pystr list)" where
  "parse_qs qs = parse_qs_collect (parse_qsl qs) Map.empty"

subsection \<open>The extractor\<close>

text \<open>
  \<open>get_first query_params key\<close> is \<open>query_params.get(key, [None])[0]\<close>.
  \<open>accession_of_match\<close> is the body of the loop for one match, and \<open>extract_loop\<close> the
  loop with the list \<open>accessions\<close> it appends to.
\<close>

definition get_first :: "(pystr \<rightharpoonup> pystr list) \<Rightarrow> pystr \<Rightarrow> error + pystr option" where
  "get_first query_params key =
     (case (case query_params key of Some vals \<Rightarrow> map Some vals | None \<Rightarrow> [None]) of
        [] \<Rightarrow> Inl IndexError
      | v # vs \<Rightarrow> Inr v)"

definition accession_of_match :: "pystr \<Rightarrow> error + Accession" where
  "accession_of_match m =
     (if qmark \<in> set m then
        (case split1 qmark m of
           [acc, query_string] \<Rightarrow>
             (let query_params = parse_qs query_string in
              case get_first query_params (str ''from'') of
                Inl e \<Rightarrow> Inl e
              | Inr f \<Rightarrow>
              (case get_first query_params (str ''to'') of
                Inl e \<Rightarrow> Inl e
              | Inr t \<Rightarrow>
              (case get_first query_params (str ''strand'') of
                Inl e \<Rightarrow> Inl e
              | Inr s \<Rightarrow>
                  Inr \<lparr>accession = acc, from_position = f, to_position = t, strand = s\<rparr>)))
         | _ \<Rightarrow> Inl ValueError)
      else Inr \<lparr>accession = m, from_position = None, to_position = None, strand = None\<rparr>)"

fun extract_loop :: "pystr list \<Rightarrow> Accession list \<Rightarrow> error + Accession list" where
  "extract_loop [] accessions = Inr accessions"
| "extract_loop (m # matches) accessions =
     (case accession_of_match m of
        Inl e \<Rightarrow> Inl e
      | Inr a \<Rightarrow> extract_loop matches (accessions @ [a]))"

definition extract_ncbi_accessions :: "pystr \<Rightarrow> error + Accession list" where
  "extract_ncbi_accessions html_content = extract_loop (findall html_content) []"

section \<open>Query Builder: \<open>build_efetch_url\<close>\<close>

text \<open>
  Python truthiness of an \<open>Optional[str]\<close>: \<open>None\<close> and the empty string are falsy.
  \<open>fmt\<close> is what an f-string writes for such a value.
\<close>

fun truthy :: "pystr option \<Rightarrow> bool" where
  "truthy None = False"
| "truthy (Some s) = (s \<noteq> [])"

fun fmt :: "pystr option \<Rightarrow> pystr" where
  "fmt None = str ''None''"
| "fmt (Some s) = s"

definition build_efetch_url ::
  "pystr \<Rightarrow> pystr option \<Rightarrow> pystr option \<Rightarrow> pystr option \<Rightarrow> pystr" where
  "build_efetch_url acc from_pos to_pos strnd =
    (let base_url = str ''https://eutils.ncbi.nlm.nih.gov/entrez/eutils/efetch.fcgi'';
         efetch_url = base_url @ str ''?db=nuccore&id='' @ acc @ str ''&rettype=fasta&retmode=text'';
         efetch_url = (if truthy from_pos \<and> truthy to_pos
                       then efetch_url @ str ''&seq_start='' @ fmt from_pos
                                       @ str ''&seq_stop='' @ fmt to_pos
                       else efetch_url);
         efetch_url = (if truthy strnd
                       then efetch_url @ str ''&strand='' @ fmt strnd
                       else efetch_url)
     in efetch_url)"

text \<open>The call made by \<open>main\<close> for one record (lines 156 to 161).\<close>

definition efetch_url_of :: "Accession \<Rightarrow> pystr" where
  "efetch_url_of r =
     build_efetch_url (accession r) (from_position r) (to_position r) (strand r)"

section \<open>Resilient Fetcher: \<open>fetch_fasta_sequence\<close>\<close>

text \<open>
  What one call \<open>session.get(efetch_url)\<close> can do: complete with a response (its \<open>ok\<close>
  flag and its \<open>text\<close>), raise \<open>requests.exceptions.ConnectionError\<close> (with its
  message), or raise any other exception, which the \<open>except\<close> clause does not catch.
  The session is a function from the number of the call (counted from 0 within one run of
  the fetcher) to its outcome: every iteration of the loop makes exactly one call, so call
  \<open>attempt\<close> is the one made in iteration \<open>attempt\<close>.

  The effects of the fetcher are an event list, returned beside the result: each network
  exchange, each printed line (the fields of the format string for the connection error
  line) and each \<open>sleep(delay)\<close>. \<open>time.sleep\<close> raises \<open>ValueError\<close> for a negative
  delay; \<open>delay\<close> is the value in seconds of a finite float.
\<close>

datatype outcome =
    Response bool pystr
  | ConnectionError pystr
  | OtherException pystr

datatype event =
    Get pystr
  | PrintConnectionError int int pystr
  | PrintMaxRetries
  | Sleep real

text \<open>
  \<open>for attempt in range(retries)\<close>: recursion on the list of attempt numbers. The result
  is \<open>Inl\<close> an exception that leaves the function, or \<open>Inr\<close> the returned
  \<open>Optional[str]\<close>.
\<close>

fun fetch_attempts ::
  "(nat \<Rightarrow> outcome) \<Rightarrow> pystr \<Rightarrow> int \<Rightarrow> real \<Rightarrow> nat list
     \<Rightarrow> (error + pystr option) \<times> event list" where
  "fetch_attempts session efetch_url retries delay [] = (Inr None, [])"
| "fetch_attempts session efetch_url retries delay (attempt # rest) =
    (case session attempt of
       Response ok txt \<Rightarrow>
         if ok then (Inr (Some txt), [Get efetch_url])
         else (case fetch_attempts session efetch_url retries delay rest of
                 (res, evs) \<Rightarrow> (res, Get efetch_url # evs))
     | ConnectionError e \<Rightarrow>
         if int attempt < retries - 1 then
           (if delay < 0
            then (Inl ValueError,
                  [Get efetch_url, PrintConnectionError (int attempt + 1) retries e])
            else (case fetch_attempts session efetch_url retries delay rest of
                    (res, evs) \<Rightarrow>
                      (res, Get efetch_url # PrintConnectionError (int attempt + 1) retries e
                              # Sleep delay # evs)))
         else (case fetch_attempts session efetch_url retries delay rest of
                 (res, evs) \<Rightarrow>
                   (res, Get efetch_url # PrintConnectionError (int attempt + 1) retries e
                           # PrintMaxRetries # evs))
     | OtherException e \<Rightarrow> (Inl (Raised e), [Get efetch_url]))"

definition fetch_fasta_sequence ::
  "(nat \<Rightarrow> outcome) \<Rightarrow> pystr \<Rightarrow> int \<Rightarrow> real \<Rightarrow> (error + pystr option) \<times> event list" where
  "fetch_fasta_sequence session efetch_url retries delay =
     fetch_attempts session efetch_url retries delay [0 ..< nat retries]"



section \<open>Notions of the specification and simulated inputs\<close>

text \<open>
  The first value of a key among parsed pairs; a field with a blank value (no equals
  sign, or nothing after the first one); the fields of a query string that are kept;
  fields joined by ampersands.
\<close>

fun first_value :: "pystr \<Rightarrow> (pystr \<times> pystr) list \<Rightarrow> pystr option" where
  "first_value key [] = None"
| "first_value key ((name, val) # pairs) =
     (if name = key then Some val else first_value key pairs)"

definition blank_value :: "pystr \<Rightarrow> bool" where
  "blank_value f = (drop 1 (dropWhile (\<lambda>c. c \<noteq> eq_sign) f) = [])"

definition nonblank_fields :: "pystr \<Rightarrow> pystr list" where
  "nonblank_fields qs = filter (\<lambda>f. \<not> blank_value f) (split_all amp qs)"

fun join_fields :: "pystr list \<Rightarrow> pystr" where
  "join_fields [] = []"
| "join_fields [f] = f"
| "join_fields (f # g # fs) = f @ amp # join_fields (g # fs)"

text \<open>
  The name and the value of a field, unquoted, and a key all of whose fields are blank.
\<close>

definition field_name :: "pystr \<Rightarrow> pystr" where
  "field_name f = unquote_plus (takeWhile (\<lambda>c. c \<noteq> eq_sign) f)"

definition field_value :: "pystr \<Rightarrow> pystr" where
  "field_value f = unquote_plus (drop 1 (dropWhile (\<lambda>c. c \<noteq> eq_sign) f))"

definition only_blank :: "pystr \<Rightarrow> pystr list \<Rightarrow> bool" where
  "only_blank key fs = (\<forall>f\<in>set fs. field_name f = key \<longrightarrow> blank_value f)"


text \<open>
  A reference occurrence in markup: the known prefix, the run, the closing double quote.
  \<open>markup links tail\<close> is a page of such occurrences, each after some text in between,
  followed by \<open>tail\<close>. A text is \<open>plain\<close> when it lacks the letter every occurrence starts
  with.
\<close>

definition link :: "pystr \<Rightarrow> pystr" where
  "link run = str ''http://www.ncbi.nlm.nih.gov/nuccore/'' @ run @ [dquote]"




fun fails_then :: "nat \<Rightarrow> pystr \<Rightarrow> nat \<Rightarrow> outcome" where
  "fails_then k body j = (if j < k then ConnectionError (str ''refused'') else Response True body)"

fun rejects_then :: "nat \<Rightarrow> pystr \<Rightarrow> nat \<Rightarrow> outcome" where
  "rejects_then k body j =
     (if j < k then Response False (str ''Bad Request'') else Response True body)"


fun is_rejection :: "outcome \<Rightarrow> bool" where
  "is_rejection (Response ok txt) = (\<not> ok)"
| "is_rejection _ = False"

section \<open>Properties of the Query Builder\<close>

text \<open>
  C1. For every Accession Record the Query Builder produces exactly
  \<open><base>?db=nuccore&id=<accession>&rettype=fasta&retmode=text\<close>, followed by
  \<open>&seq_start=<from>&seq_stop=<to>\<close> if and only if both positions are present and
  non-empty (the values verbatim; nothing when only one is present), followed by
  \<open>&strand=<strand>\<close> if and only if the strand is present and non-empty, independently
  of the range segment.
\<close>

theorem build_efetch_url_shape:
  "efetch_url_of r =
     str ''https://eutils.ncbi.nlm.nih.gov/entrez/eutils/efetch.fcgi''
     @ str ''?db=nuccore&id='' @ accession r @ str ''&rettype=fasta&retmode=text''
     @ (if (\<exists>f t. from_position r = Some f \<and> f \<noteq> [] \<and> to_position r = Some t \<and> t \<noteq> [])
        then str ''&seq_start='' @ the (from_position r) @ str ''&seq_stop='' @ the (to_position r)
        else [])
     @ (if (\<exists>s. strand r = Some s \<and> s \<noteq> [])
        then str ''&strand='' @ the (strand r)
        else [])"
proof -
  have tr: "\<And>x. (\<exists>s. x = Some s \<and> s \<noteq> []) \<longleftrightarrow> truthy x"
    by (case_tac x) simp_all
  have fm: "\<And>x. truthy x \<Longrightarrow> fmt x = the x"
    by (case_tac x) simp_all
  have both: "(\<exists>f t. from_position r = Some f \<and> f \<noteq> [] \<and> to_position r = Some t \<and> t \<noteq> [])
                \<longleftrightarrow> truthy (from_position r) \<and> truthy (to_position r)"
    by (cases "from_position r"; cases "to_position r") simp_all
  show ?thesis
    unfolding both tr efetch_url_of_def build_efetch_url_def Let_def
    by (simp add: fm)
qed

theorem build_efetch_url_shape_witness:
  "efetch_url_of \<lparr>accession = str ''X1'', from_position = Some (str ''5''),
                   to_position = Some (str ''20''), strand = None\<rparr>
     = str ''https://eutils.ncbi.nlm.nih.gov/entrez/eutils/efetch.fcgi?db=nuccore&id=X1&rettype=fasta&retmode=text&seq_start=5&seq_stop=20''
   \<and> efetch_url_of \<lparr>accession = str ''X1'', from_position = Some (str ''5''),
                   to_position = None, strand = Some (str ''2'')\<rparr>
     = str ''https://eutils.ncbi.nlm.nih.gov/entrez/eutils/efetch.fcgi?db=nuccore&id=X1&rettype=fasta&retmode=text&strand=2''
   \<and> efetch_url_of \<lparr>accession = str ''X1'', from_position = Some [],
                   to_position = Some (str ''20''), strand = Some []\<rparr>
     = str ''https://eutils.ncbi.nlm.nih.gov/entrez/eutils/efetch.fcgi?db=nuccore&id=X1&rettype=fasta&retmode=text''"
  using build_efetch_url_shape
          [of "\<lparr>accession = str ''X1'', from_position = Some (str ''5''),
                to_position = Some (str ''20''), strand = None\<rparr>"]
        build_efetch_url_shape
          [of "\<lparr>accession = str ''X1'', from_position = Some (str ''5''),
                to_position = None, strand = Some (str ''2'')\<rparr>"]
        build_efetch_url_shape
          [of "\<lparr>accession = str ''X1'', from_position = Some [],
                to_position = Some (str ''20''), strand = Some []\<rparr>"]
  by (simp add: str_def)

section \<open>Properties of the Resilient Fetcher\<close>





lemma fetch_rejections:
  "i \<le> k \<Longrightarrow> k \<le> n \<Longrightarrow> (\<And>j. i \<le> j \<Longrightarrow> j < k \<Longrightarrow> is_rejection (session j))
   \<Longrightarrow> fetch_attempts session url retries delay [i ..< n] =
       (if k < n then
          (case fetch_attempts session url retries delay [k ..< n] of
            (res, evs) \<Rightarrow> (res, replicate (k - i) (Get url) @ evs))
        else (Inr None, replicate (n - i) (Get url)))"
proof (induction "k - i" arbitrary: i)
  case 0
  then have "i = k" by simp
  with 0 show ?case by (auto split: prod.splits)
next
  case (Suc d)
  then have lt: "i < k" "i < n" by simp_all
  obtain t where rj: "session i = Response False t"
    using Suc.prems(3)[of i] lt by (cases "session i") simp_all
  have IH: "fetch_attempts session url retries delay [Suc i ..< n] =
       (if k < n then
          (case fetch_attempts session url retries delay [k ..< n] of
            (res, evs) \<Rightarrow> (res, replicate (k - Suc i) (Get url) @ evs))
        else (Inr None, replicate (n - Suc i) (Get url)))"
    using Suc.hyps(1)[of "Suc i"] Suc.hyps(2) Suc.prems lt by simp
  have k: "replicate (k - i) (Get url) = Get url # replicate (k - Suc i) (Get url)"
    using lt by (simp add: Suc_diff_Suc flip: replicate_Suc)
  have n: "replicate (n - i) (Get url) = Get url # replicate (n - Suc i) (Get url)"
    using lt by (simp add: Suc_diff_Suc flip: replicate_Suc)
  have up: "[i ..< n] = i # [Suc i ..< n]" using lt by (simp add: upt_conv_Cons)
  show ?case unfolding up k n using rj IH
    by (auto split: prod.splits)
qed




text \<open>
  C4, as stated: after an attempt that completes with a non-success status the loop makes
  no further network attempt. It fails: the next iteration calls \<open>session.get\<close> again.
\<close>

theorem fetch_rejection_counterexample:
  "rejects_then 1 (str ''>seq'') 0 = Response False (str ''Bad Request'')
   \<and> fetch_fasta_sequence (rejects_then 1 (str ''>seq'')) (str ''u'') 3 1
       = (Inr (Some (str ''>seq'')), [Get (str ''u''), Get (str ''u'')])"
  by (simp add: fetch_fasta_sequence_def upt_conv_Cons)

text \<open>
  C4, amended. An attempt that completes with a non-success status raises nothing, prints
  nothing and pauses for nothing, and the loop goes on to the next attempt, which performs
  a further exchange: after \<open>k\<close> such attempts a success at attempt \<open>k\<close> is returned after
  \<open>k + 1\<close> exchanges, and when all \<open>retries\<close> attempts complete with a non-success status the
  fetcher has made exactly \<open>retries\<close> exchanges and returns \<open>None\<close>.
\<close>

theorem fetch_rejected_attempts_continue:
  "(k < nat retries \<and> (\<forall>j<k. is_rejection (session j)) \<and> session k = Response True body
      \<longrightarrow> fetch_fasta_sequence session url retries delay
            = (Inr (Some body), replicate (Suc k) (Get url)))
   \<and> ((\<forall>j<nat retries. is_rejection (session j))
      \<longrightarrow> fetch_fasta_sequence session url retries delay
            = (Inr None, replicate (nat retries) (Get url)))"
proof (intro conjI impI)
  assume a: "k < nat retries \<and> (\<forall>j<k. is_rejection (session j)) \<and> session k = Response True body"
  then have "fetch_attempts session url retries delay [k ..< nat retries]
               = (Inr (Some body), [Get url])"
    by (simp add: upt_conv_Cons)
  then show "fetch_fasta_sequence session url retries delay
               = (Inr (Some body), replicate (Suc k) (Get url))"
    unfolding fetch_fasta_sequence_def
    using a fetch_rejections [of 0 k "nat retries" session url retries delay]
    by (simp add: replicate_append_same)
next
  assume "\<forall>j<nat retries. is_rejection (session j)"
  then show "fetch_fasta_sequence session url retries delay
               = (Inr None, replicate (nat retries) (Get url))"
    unfolding fetch_fasta_sequence_def
    using fetch_rejections [of 0 "nat retries" "nat retries" session url retries delay]
    by simp
qed

theorem fetch_rejected_attempts_continue_witness:
  "fetch_fasta_sequence (rejects_then 2 (str ''>seq'')) (str ''u'') 3 1
     = (Inr (Some (str ''>seq'')), [Get (str ''u''), Get (str ''u''), Get (str ''u'')])
   \<and> fetch_fasta_sequence (rejects_then 2 (str ''>seq'')) (str ''u'') 2 1
     = (Inr None, [Get (str ''u''), Get (str ''u'')])"
  using fetch_rejected_attempts_continue
          [of 2 3 "rejects_then 2 (str ''>seq'')" "str ''>seq''" "str ''u''" 1]
        fetch_rejected_attempts_continue
          [of 2 2 "rejects_then 2 (str ''>seq'')" "str ''>seq''" "str ''u''" 1]
  by (simp add: numeral_2_eq_2 numeral_3_eq_3)



text \<open>
  C9. Called with \<open>retries\<close> equal to 0 or negative, the fetcher makes no network attempt
  and no pause (it has no effect at all) and returns \<open>None\<close>; it raises nothing.
\<close>

theorem fetch_nonpositive_retries:
  "retries \<le> 0 \<Longrightarrow> fetch_fasta_sequence session url retries delay = (Inr None, [])"
  by (simp add: fetch_fasta_sequence_def)

theorem fetch_nonpositive_retries_witness:
  "fetch_fasta_sequence (fails_then 2 (str ''>seq'')) (str ''u'') 0 1 = (Inr None, [])
   \<and> fetch_fasta_sequence (rejects_then 0 (str ''>seq'')) (str ''u'') (- 4) (- 1) = (Inr None, [])"
  using fetch_nonpositive_retries [of 0 "fails_then 2 (str ''>seq'')" "str ''u''" 1]
        fetch_nonpositive_retries [of "- 4" "rejects_then 0 (str ''>seq'')" "str ''u''" "- 1"]
  by simp

section \<open>Properties of the Reference Extractor\<close>

subsection \<open>Splitting and unquoting\<close>

lemma split_all_nonempty: "split_all sep s \<noteq> []"
  by (induction s) (auto split: list.splits)

lemma split_all_Cons_sep: "split_all sep (sep # cs) = [] # split_all sep cs"
  by simp

lemma split_all_Cons_other:
  "c \<noteq> sep \<Longrightarrow> split_all sep (c # cs) = (c # hd (split_all sep cs)) # tl (split_all sep cs)"
  using split_all_nonempty [of sep cs] by (cases "split_all sep cs") simp_all

lemma utf8_decode_nonempty: "bs \<noteq> [] \<Longrightarrow> utf8_decode bs \<noteq> []"
  by (cases bs) (simp_all split: prod.splits)

lemma unquote_item_nonempty: "unquote_item item \<noteq> []"
  by (cases item rule: unquote_item.cases) (simp_all split: option.splits)

lemma unquote_to_bytes_nonempty: "s \<noteq> [] \<Longrightarrow> unquote_to_bytes s \<noteq> []"
proof (cases s)
  case Nil
  assume "s \<noteq> []"
  with Nil show ?thesis by simp
next
  case (Cons c cs)
  show ?thesis
  proof (cases "c = percent")
    case True
    obtain b bits where b: "split_all percent cs = b # bits"
      using split_all_nonempty [of percent cs] by (cases "split_all percent cs") auto
    show ?thesis using True Cons b unquote_item_nonempty [of b]
      by (simp add: unquote_to_bytes_def)
  next
    case False
    then show ?thesis using Cons
      by (simp add: unquote_to_bytes_def split_all_Cons_other del: split_all.simps)
  qed
qed

lemma unquote_parts_nonempty: "s \<noteq> [] \<Longrightarrow> unquote_parts s \<noteq> []"
proof (cases s)
  case Nil
  assume "s \<noteq> []"
  with Nil show ?thesis by simp
next
  case (Cons c cs)
  show ?thesis
  proof (cases "is_ascii c")
    case True
    then have "takeWhile is_ascii (c # cs) \<noteq> []" by simp
    then have "utf8_decode (unquote_to_bytes (takeWhile is_ascii (c # cs))) \<noteq> []"
      by (intro utf8_decode_nonempty unquote_to_bytes_nonempty)
    then show ?thesis using True Cons by simp
  next
    case False
    then show ?thesis using Cons by simp
  qed
qed

lemma unquote_nonempty: "s \<noteq> [] \<Longrightarrow> unquote s \<noteq> []"
  by (simp add: unquote_def unquote_parts_nonempty)

lemma unquote_plus_nonempty: "s \<noteq> [] \<Longrightarrow> unquote_plus s \<noteq> []"
  by (simp add: unquote_plus_def unquote_nonempty)

lemma partition_str_parts:
  "partition_str sep s = (name, has, val) \<Longrightarrow>
     name = takeWhile (\<lambda>c. c \<noteq> sep) s \<and> val = drop 1 (dropWhile (\<lambda>c. c \<noteq> sep) s)"
proof (cases "sep \<in> set s")
  case True
  assume "partition_str sep s = (name, has, val)"
  with True show ?thesis by (simp add: partition_str_def)
next
  case False
  then have all: "\<forall>c\<in>set s. c \<noteq> sep" by auto
  have t: "takeWhile (\<lambda>c. c \<noteq> sep) s = s" using all by (simp add: takeWhile_eq_all_conv)
  have d: "dropWhile (\<lambda>c. c \<noteq> sep) s = []" using all by (simp add: dropWhile_eq_Nil_conv)
  assume "partition_str sep s = (name, has, val)"
  with False have "name = s" "val = []" by (simp_all add: partition_str_def)
  then show ?thesis unfolding t d by simp
qed

lemma parse_qsl_fields_closed_form:
  "parse_qsl_fields fs =
     map (\<lambda>f. (unquote_plus (takeWhile (\<lambda>c. c \<noteq> eq_sign) f),
                unquote_plus (drop 1 (dropWhile (\<lambda>c. c \<noteq> eq_sign) f))))
         (filter (\<lambda>f. drop 1 (dropWhile (\<lambda>c. c \<noteq> eq_sign) f) \<noteq> []) fs)"
proof (induction fs)
  case Nil
  show ?case by simp
next
  case (Cons f fs)
  obtain name has val where p: "partition_str eq_sign f = (name, has, val)"
    by (cases "partition_str eq_sign f") auto
  note parts = partition_str_parts [OF p]
  show ?case
  proof (cases "f = []")
    case True
    then show ?thesis using Cons by simp
  next
    case False
    then show ?thesis using Cons p parts by simp
  qed
qed

lemma parse_qsl_closed_form:
  "parse_qsl qs =
     map (\<lambda>f. (unquote_plus (takeWhile (\<lambda>c. c \<noteq> eq_sign) f),
                unquote_plus (drop 1 (dropWhile (\<lambda>c. c \<noteq> eq_sign) f))))
         (nonblank_fields qs)"
  by (cases "qs = []")
     (simp_all add: parse_qsl_def nonblank_fields_def blank_value_def
                    parse_qsl_fields_closed_form)

lemma parse_qsl_values_nonempty: "(k, v) \<in> set (parse_qsl qs) \<Longrightarrow> v \<noteq> []"
  by (auto simp add: parse_qsl_closed_form nonblank_fields_def blank_value_def
                     unquote_plus_nonempty)

lemma first_value_nonempty:
  "(\<And>k v. (k, v) \<in> set pairs \<Longrightarrow> v \<noteq> []) \<Longrightarrow> first_value key pairs \<noteq> Some []"
  by (induction key pairs rule: first_value.induct) (auto split: if_splits)

lemma parse_qs_collect_lookup:
  "parse_qs_collect pairs d key =
     (case d key of
        None \<Rightarrow> (case map snd (filter (\<lambda>p. fst p = key) pairs) of
                    [] \<Rightarrow> None | v # vs \<Rightarrow> Some (v # vs))
      | Some vals \<Rightarrow> Some (vals @ map snd (filter (\<lambda>p. fst p = key) pairs)))"
proof (induction pairs d rule: parse_qs_collect.induct)
  case (1 d)
  show ?case by (simp split: option.splits)
next
  case (2 name val pairs d)
  show ?case unfolding parse_qs_collect.simps 2
    by (auto split: option.splits list.splits)
qed

lemma first_value_filter:
  "first_value key pairs =
     (case map snd (filter (\<lambda>p. fst p = key) pairs) of [] \<Rightarrow> None | v # vs \<Rightarrow> Some v)"
  by (induction key pairs rule: first_value.induct) auto

lemma get_first_parse_qs:
  "get_first (parse_qs qs) key = Inr (first_value key (parse_qsl qs))"
  by (simp add: get_first_def parse_qs_def parse_qs_collect_lookup first_value_filter
           split: list.splits)

lemma accession_of_match_query:
  "qmark \<in> set m \<Longrightarrow>
   accession_of_match m =
     Inr \<lparr>accession = takeWhile (\<lambda>c. c \<noteq> qmark) m,
          from_position = first_value (str ''from'')
                            (parse_qsl (drop 1 (dropWhile (\<lambda>c. c \<noteq> qmark) m))),
          to_position = first_value (str ''to'')
                            (parse_qsl (drop 1 (dropWhile (\<lambda>c. c \<noteq> qmark) m))),
          strand = first_value (str ''strand'')
                            (parse_qsl (drop 1 (dropWhile (\<lambda>c. c \<noteq> qmark) m)))\<rparr>"
  by (simp add: accession_of_match_def split1_def get_first_parse_qs)

lemma accession_of_match_plain:
  "qmark \<notin> set m \<Longrightarrow>
   accession_of_match m =
     Inr \<lparr>accession = m, from_position = None, to_position = None, strand = None\<rparr>"
  by (simp add: accession_of_match_def)

lemma accession_of_match_total: "\<exists>a. accession_of_match m = Inr a"
  by (cases "qmark \<in> set m") (simp_all add: accession_of_match_query accession_of_match_plain)

lemma extract_loop_all2:
  "\<exists>rs. extract_loop ms acc = Inr (acc @ rs)
        \<and> list_all2 (\<lambda>m r. accession_of_match m = Inr r) ms rs"
proof (induction ms arbitrary: acc)
  case Nil
  show ?case by simp
next
  case (Cons m ms)
  obtain a where a: "accession_of_match m = Inr a"
    using accession_of_match_total by blast
  obtain rs where rs: "extract_loop ms (acc @ [a]) = Inr ((acc @ [a]) @ rs)"
    "list_all2 (\<lambda>m r. accession_of_match m = Inr r) ms rs"
    using Cons [of "acc @ [a]"] by blast
  show ?case
    by (rule exI [of _ "a # rs"]) (simp add: a rs)
qed

lemma findall_runs: "m \<in> set (findall s) \<Longrightarrow> m \<noteq> [] \<and> dquote \<notin> set m"
proof (induction s rule: findall.induct)
  case 1
  then show ?case by simp
next
  case (2 c cs)
  show ?case
  proof (cases "match_here (c # cs)")
    case None
    then show ?thesis using 2 by simp
  next
    case (Some p)
    obtain g rest where p: "p = (g, rest)" by (cases p) auto
    have g: "g \<noteq> [] \<and> dquote \<notin> set g"
      using Some p
      by (auto simp add: match_here_def Let_def split: option.splits if_splits
               dest: set_takeWhileD)
    show ?thesis using 2 Some p g by auto
  qed
qed


lemma split_all_append:
  "split_all sep (a @ sep # b) = split_all sep a @ split_all sep b"
proof (induction a)
  case Nil
  show ?case by simp
next
  case (Cons c a)
  obtain p ps where p: "split_all sep a = p # ps"
    using split_all_nonempty [of sep a] by (cases "split_all sep a") auto
  show ?case using Cons p by simp
qed

lemma split_all_no_sep: "sep \<notin> set f \<Longrightarrow> split_all sep f = [f]"
  by (induction f) auto

lemma split_all_join:
  "fs \<noteq> [] \<Longrightarrow> (\<And>f. f \<in> set fs \<Longrightarrow> amp \<notin> set f) \<Longrightarrow> split_all amp (join_fields fs) = fs"
proof (induction fs rule: join_fields.induct)
  case 1
  then show ?case by simp
next
  case (2 f)
  then show ?case by (simp add: split_all_no_sep)
next
  case (3 f g fs)
  have "split_all amp (join_fields (g # fs)) = g # fs"
    using 3 by simp
  moreover have "split_all amp f = [f]" using 3(3) [of f] by (simp add: split_all_no_sep)
  ultimately show ?case by (simp add: split_all_append del: split_all.simps)
qed

lemma nonblank_fields_join:
  assumes "\<And>f. f \<in> set fs \<Longrightarrow> amp \<notin> set f"
  shows "nonblank_fields (join_fields fs) = filter (\<lambda>f. \<not> blank_value f) fs"
proof (cases "fs = []")
  case True
  then show ?thesis by (simp add: nonblank_fields_def blank_value_def)
next
  case False
  then show ?thesis using assms by (simp add: nonblank_fields_def split_all_join)
qed

lemma parse_qsl_join_drop_blank:
  assumes "\<And>f. f \<in> set fs \<Longrightarrow> amp \<notin> set f"
  shows "parse_qsl (join_fields fs) = parse_qsl (join_fields (filter (\<lambda>f. \<not> blank_value f) fs))"
proof -
  have "\<And>f. f \<in> set (filter (\<lambda>f. \<not> blank_value f) fs) \<Longrightarrow> amp \<notin> set f"
    using assms by simp
  then have "nonblank_fields (join_fields (filter (\<lambda>f. \<not> blank_value f) fs))
               = filter (\<lambda>f. \<not> blank_value f) (filter (\<lambda>f. \<not> blank_value f) fs)"
    by (rule nonblank_fields_join)
  then show ?thesis
    using nonblank_fields_join [of fs, OF assms] by (simp add: parse_qsl_closed_form)
qed

lemma accession_of_match_split:
  assumes "m = acc @ qmark # qs" "qmark \<notin> set acc"
  shows "accession_of_match m =
     Inr \<lparr>accession = acc,
          from_position = first_value (str ''from'') (parse_qsl qs),
          to_position = first_value (str ''to'') (parse_qsl qs),
          strand = first_value (str ''strand'') (parse_qsl qs)\<rparr>"
proof -
  have all: "\<forall>c\<in>set acc. c \<noteq> qmark" using assms(2) by auto
  have t: "takeWhile (\<lambda>c. c \<noteq> qmark) m = acc"
    unfolding assms(1) using all by (simp add: takeWhile_append2)
  have d: "dropWhile (\<lambda>c. c \<noteq> qmark) m = qmark # qs"
    unfolding assms(1) using all by (simp add: dropWhile_append2)
  have "qmark \<in> set m" using assms(1) by simp
  then show ?thesis using accession_of_match_query [of m] by (simp add: t d)
qed

lemma first_value_absent: "key \<notin> fst ` set pairs \<Longrightarrow> first_value key pairs = None"
  by (induction key pairs rule: first_value.induct) auto

lemma first_value_parse_qsl_nonempty: "first_value key (parse_qsl qs) \<noteq> Some []"
  by (rule first_value_nonempty) (rule parse_qsl_values_nonempty)

lemma accession_of_match_fields_nonempty:
  assumes "accession_of_match m = Inr r"
  shows "from_position r \<noteq> Some [] \<and> to_position r \<noteq> Some [] \<and> strand r \<noteq> Some []"
proof (cases "qmark \<in> set m")
  case True
  then show ?thesis
    using assms accession_of_match_query [of m] first_value_parse_qsl_nonempty by auto
next
  case False
  then show ?thesis using assms accession_of_match_plain [of m] by auto
qed

lemma extract_all2:
  "\<exists>rs. extract_ncbi_accessions html = Inr rs
        \<and> list_all2 (\<lambda>m r. accession_of_match m = Inr r) (findall html) rs"
  using extract_loop_all2 [of "findall html" "[]"] by (simp add: extract_ncbi_accessions_def)




lemma parse_qsl_fields_form:
  "parse_qsl qs = map (\<lambda>f. (field_name f, field_value f)) (nonblank_fields qs)"
  by (simp add: parse_qsl_closed_form field_name_def field_value_def)

lemma first_value_only_blank:
  assumes "\<And>f. f \<in> set fs \<Longrightarrow> amp \<notin> set f" "only_blank key fs"
  shows "first_value key (parse_qsl (join_fields fs)) = None"
proof (rule first_value_absent)
  have "nonblank_fields (join_fields fs) = filter (\<lambda>f. \<not> blank_value f) fs"
    using assms(1) by (rule nonblank_fields_join)
  then show "key \<notin> fst ` set (parse_qsl (join_fields fs))"
    using assms(2) by (auto simp add: parse_qsl_fields_form only_blank_def)
qed

lemma accession_of_match_accession:
  assumes "accession_of_match m = Inr r"
  shows "accession r = takeWhile (\<lambda>c. c \<noteq> qmark) m"
proof (cases "qmark \<in> set m")
  case True
  then show ?thesis using assms accession_of_match_query [of m] by auto
next
  case False
  then have tw: "takeWhile (\<lambda>c. c \<noteq> qmark) m = m"
    by (auto simp add: takeWhile_eq_all_conv)
  have "accession r = m" using False assms accession_of_match_plain [of m] by auto
  then show ?thesis unfolding tw .
qed

lemma takeWhile_empty_hd: "m \<noteq> [] \<Longrightarrow> (takeWhile P m = []) = (\<not> P (hd m))"
  by (cases m) simp_all

subsection \<open>Unquoting is URL decoding\<close>

























subsection \<open>Matching\<close>









subsection \<open>The claims\<close>



text \<open>
  C5, as stated: every record the extractor produces has a non-empty accession. It fails
  for a run that starts with a question mark: the part before the first question mark is
  the empty string.
\<close>

theorem empty_accession_counterexample:
  "extract_ncbi_accessions (link (str ''?from=1''))
     = Inr [\<lparr>accession = [], from_position = Some (str ''1''),
               to_position = None, strand = None\<rparr>]"
  by code_simp

text \<open>
  C5, amended. For every input markup text the extractor returns one record per matched
  run; every matched run is non-empty; the accession of its record is the part of the run
  before the first question mark (the whole run when there is none); and the accession is
  empty exactly when the run starts with a question mark. So every record built from a
  run without a question mark, or with one after the first position, has a non-empty
  accession.
\<close>

theorem accession_empty_only_before_leading_qmark:
  "\<exists>rs. extract_ncbi_accessions html = Inr rs
       \<and> list_all2 (\<lambda>m r. m \<noteq> [] \<and> accession r = takeWhile (\<lambda>c. c \<noteq> qmark) m
                            \<and> (accession r = []) = (hd m = qmark))
                   (findall html) rs"
proof -
  obtain rs where rs: "extract_ncbi_accessions html = Inr rs"
    "list_all2 (\<lambda>m r. accession_of_match m = Inr r) (findall html) rs"
    using extract_all2 by blast
  have "list_all2 (\<lambda>m r. m \<noteq> [] \<and> accession r = takeWhile (\<lambda>c. c \<noteq> qmark) m
                            \<and> (accession r = []) = (hd m = qmark))
                   (findall html) rs"
  proof (rule list.rel_mono_strong [OF rs(2)])
    fix m r
    assume m: "m \<in> set (findall html)" and "r \<in> set rs" and a: "accession_of_match m = Inr r"
    have ne: "m \<noteq> []" using findall_runs [OF m] by simp
    have acc: "accession r = takeWhile (\<lambda>c. c \<noteq> qmark) m"
      by (rule accession_of_match_accession [OF a])
    show "m \<noteq> [] \<and> accession r = takeWhile (\<lambda>c. c \<noteq> qmark) m
            \<and> (accession r = []) = (hd m = qmark)"
      using ne acc takeWhile_empty_hd [OF ne, of "\<lambda>c. c \<noteq> qmark"] by simp
  qed
  then show ?thesis using rs(1) by blast
qed

theorem accession_empty_only_before_leading_qmark_witness:
  "list_all2 (\<lambda>m r. m \<noteq> [] \<and> accession r = takeWhile (\<lambda>c. c \<noteq> qmark) m
                       \<and> (accession r = []) = (hd m = qmark))
     [str ''?from=1'', str ''AB12'']
     [\<lparr>accession = [], from_position = Some (str ''1''), to_position = None, strand = None\<rparr>,
      \<lparr>accession = str ''AB12'', from_position = None, to_position = None, strand = None\<rparr>]"
proof -
  have ev: "extract_ncbi_accessions (link (str ''?from=1'') @ link (str ''AB12'')) =
      Inr [\<lparr>accession = [], from_position = Some (str ''1''), to_position = None, strand = None\<rparr>,
           \<lparr>accession = str ''AB12'', from_position = None, to_position = None, strand = None\<rparr>]"
    by code_simp
  have fa: "findall (link (str ''?from=1'') @ link (str ''AB12'')) = [str ''?from=1'', str ''AB12'']"
    by code_simp
  show ?thesis
    using accession_empty_only_before_leading_qmark
            [of "link (str ''?from=1'') @ link (str ''AB12'')"]
    unfolding ev fa by (simp add: str_def qmark_def)
qed



text \<open>
  C10. No field of a record the extractor produces is ever the empty string. A field of
  the query string with a blank value (such as \<open>from=\<close>) is dropped when the query string
  is parsed: the record is the one of the query string without that field, and a
  qualifier key that is present only with a blank value gives an absent field, as
  \<open>from_position\<close> for \<open>?from=&to=5\<close>.
\<close>

theorem blank_values_are_dropped:
  "(\<exists>rs. extract_ncbi_accessions html = Inr rs
         \<and> (\<forall>r\<in>set rs. from_position r \<noteq> Some [] \<and> to_position r \<noteq> Some []
                          \<and> strand r \<noteq> Some []))
   \<and> (qmark \<notin> set acc \<and> (\<forall>f\<in>set fs. amp \<notin> set f)
        \<longrightarrow> accession_of_match (acc @ qmark # join_fields fs)
            = accession_of_match (acc @ qmark # join_fields (filter (\<lambda>f. \<not> blank_value f) fs)))
   \<and> (qmark \<notin> set acc \<and> (\<forall>f\<in>set fs. amp \<notin> set f)
        \<and> accession_of_match (acc @ qmark # join_fields fs) = Inr r
        \<longrightarrow> (only_blank (str ''from'') fs \<longrightarrow> from_position r = None)
          \<and> (only_blank (str ''to'') fs \<longrightarrow> to_position r = None)
          \<and> (only_blank (str ''strand'') fs \<longrightarrow> strand r = None))"
proof (intro conjI impI)
  obtain rs where rs: "extract_ncbi_accessions html = Inr rs"
    "list_all2 (\<lambda>m r. accession_of_match m = Inr r) (findall html) rs"
    using extract_all2 by blast
  have "\<forall>r\<in>set rs. from_position r \<noteq> Some [] \<and> to_position r \<noteq> Some [] \<and> strand r \<noteq> Some []"
  proof
    fix r
    assume "r \<in> set rs"
    then obtain m where "accession_of_match m = Inr r"
      using rs(2) by (auto simp add: in_set_conv_nth list_all2_conv_all_nth)
    then show "from_position r \<noteq> Some [] \<and> to_position r \<noteq> Some [] \<and> strand r \<noteq> Some []"
      by (rule accession_of_match_fields_nonempty)
  qed
  then show "\<exists>rs. extract_ncbi_accessions html = Inr rs
         \<and> (\<forall>r\<in>set rs. from_position r \<noteq> Some [] \<and> to_position r \<noteq> Some []
                          \<and> strand r \<noteq> Some [])"
    using rs(1) by blast
next
  assume a: "qmark \<notin> set acc \<and> (\<forall>f\<in>set fs. amp \<notin> set f)"
  then have eq: "parse_qsl (join_fields fs)
                   = parse_qsl (join_fields (filter (\<lambda>f. \<not> blank_value f) fs))"
    by (intro parse_qsl_join_drop_blank) simp
  show "accession_of_match (acc @ qmark # join_fields fs)
            = accession_of_match (acc @ qmark # join_fields (filter (\<lambda>f. \<not> blank_value f) fs))"
    using a accession_of_match_split [OF refl, of acc "join_fields fs"]
          accession_of_match_split
            [OF refl, of acc "join_fields (filter (\<lambda>f. \<not> blank_value f) fs)"]
    by (simp add: eq)
next
  assume a: "qmark \<notin> set acc \<and> (\<forall>f\<in>set fs. amp \<notin> set f)
        \<and> accession_of_match (acc @ qmark # join_fields fs) = Inr r"
  assume "only_blank (str ''from'') fs"
  then have "first_value (str ''from'') (parse_qsl (join_fields fs)) = None"
    using a by (intro first_value_only_blank) simp_all
  then show "from_position r = None"
    using a accession_of_match_split [OF refl, of acc "join_fields fs"] by auto
next
  assume a: "qmark \<notin> set acc \<and> (\<forall>f\<in>set fs. amp \<notin> set f)
        \<and> accession_of_match (acc @ qmark # join_fields fs) = Inr r"
  assume "only_blank (str ''to'') fs"
  then have "first_value (str ''to'') (parse_qsl (join_fields fs)) = None"
    using a by (intro first_value_only_blank) simp_all
  then show "to_position r = None"
    using a accession_of_match_split [OF refl, of acc "join_fields fs"] by auto
next
  assume a: "qmark \<notin> set acc \<and> (\<forall>f\<in>set fs. amp \<notin> set f)
        \<and> accession_of_match (acc @ qmark # join_fields fs) = Inr r"
  assume "only_blank (str ''strand'') fs"
  then have "first_value (str ''strand'') (parse_qsl (join_fields fs)) = None"
    using a by (intro first_value_only_blank) simp_all
  then show "strand r = None"
    using a accession_of_match_split [OF refl, of acc "join_fields fs"] by auto
qed

theorem blank_values_are_dropped_witness:
  "accession_of_match (str ''A?from=&to=5'') = accession_of_match (str ''A?to=5'')
   \<and> accession_of_match (str ''A?from=&to=5'') =
       Inr \<lparr>accession = str ''A'', from_position = None, to_position = Some (str ''5''),
            strand = None\<rparr>
   \<and> only_blank (str ''from'') [str ''from='', str ''to=5'']
   \<and> extract_ncbi_accessions (link (str ''A?from=&to=5'')) =
       Inr [\<lparr>accession = str ''A'', from_position = None, to_position = Some (str ''5''),
             strand = None\<rparr>]"
proof -
  have l: "str ''A'' @ qmark # join_fields [str ''from='', str ''to=5''] = str ''A?from=&to=5''"
    by (simp add: str_def qmark_def amp_def)
  have f: "filter (\<lambda>f. \<not> blank_value f) [str ''from='', str ''to=5''] = [str ''to=5'']"
    by (simp add: blank_value_def str_def eq_sign_def)
  have r: "str ''A'' @ qmark # join_fields [str ''to=5''] = str ''A?to=5''"
    by (simp add: str_def qmark_def)
  have h: "qmark \<notin> set (str ''A'') \<and> (\<forall>f\<in>set [str ''from='', str ''to=5'']. amp \<notin> set f)"
    by (simp add: str_def qmark_def amp_def)
  have ev: "accession_of_match (str ''A?to=5'') =
       Inr \<lparr>accession = str ''A'', from_position = None, to_position = Some (str ''5''),
            strand = None\<rparr>"
    by code_simp
  have ob: "only_blank (str ''from'') [str ''from='', str ''to=5'']"
    by code_simp
  have ex: "extract_ncbi_accessions (link (str ''A?from=&to=5'')) =
       Inr [\<lparr>accession = str ''A'', from_position = None, to_position = Some (str ''5''),
             strand = None\<rparr>]"
    by code_simp
  have "accession_of_match (str ''A?from=&to=5'') = accession_of_match (str ''A?to=5'')"
    using blank_values_are_dropped
            [of "link (str ''A?from=&to=5'')" "str ''A''" "[str ''from='', str ''to=5'']"] h
    unfolding f l r by simp
  then show ?thesis using ev ob ex by simp
qed

end
